theory Spec2Isabelle
  imports Main "HOL-Library.Char_ord" "HOL-Library.List_Lexorder" "HOL-Library.Product_Lexorder"
    "HOL-Library.Multiset" "HOL-Library.Multiset_Order"
begin

section \<open>Time-dependent route search over a timetable store (ChercheTrajet.py)\<close>

text \<open>
  The development embeds the route-search code of \<^verbatim>\<open>src/ChercheTrajet.py\<close>: the
  duration arithmetic (\<^verbatim>\<open>calculate_duration\<close>, \<^verbatim>\<open>calculate_total_time\<close>), the two
  store queries (\<^verbatim>\<open>get_premiernodes\<close>, \<^verbatim>\<open>get_neighbors\<close>), the search
  (\<^verbatim>\<open>dijkstra\<close>) and the arrival-time branch of \<^verbatim>\<open>main\<close>.

  Python values are rendered as follows. A date or a time is a \<open>string\<close>, or \<open>None\<close>
  (\<open>string option\<close>). An exception is a value \<open>Inl e\<close> of a sum type. A duration is an
  \<open>int\<close>: the source computes \<^verbatim>\<open>total_seconds() / 60\<close> on instants that have whole
  minutes, so the float it returns is a whole number.
\<close>

subsection \<open>Exceptions\<close>

datatype error = ValueError | TypeError | IndexError | UnboundLocalError

definition bind_err :: "error + 'a \<Rightarrow> ('a \<Rightarrow> error + 'b) \<Rightarrow> error + 'b" where
  "bind_err x f = (case x of Inl e \<Rightarrow> Inl e | Inr a \<Rightarrow> f a)"

subsection \<open>The instants of the datetime module\<close>

text \<open>
  A \<^verbatim>\<open>datetime\<close> is kept as the proleptic Gregorian ordinal of its date (what
  \<^verbatim>\<open>date.toordinal()\<close> returns) and the minute of its day. The four functions below
  are \<^verbatim>\<open>_is_leap\<close>, \<^verbatim>\<open>_days_before_year\<close>, \<^verbatim>\<open>_days_in_month\<close> and
  \<^verbatim>\<open>_days_before_month\<close> of CPython's datetime module.
\<close>

record datetime =
  dt_ordinal :: int
  dt_minute :: int

definition is_leap :: "int \<Rightarrow> bool" where
  "is_leap y = (y mod 4 = 0 \<and> (y mod 100 \<noteq> 0 \<or> y mod 400 = 0))"

definition days_before_year :: "int \<Rightarrow> int" where
  "days_before_year y = (y - 1) * 365 + (y - 1) div 4 - (y - 1) div 100 + (y - 1) div 400"

definition month_lengths :: "int list" where
  "month_lengths = [31, 28, 31, 30, 31, 30, 31, 31, 30, 31, 30, 31]"

definition days_in_month :: "int \<Rightarrow> int \<Rightarrow> int" where
  "days_in_month y m = (if m = 2 \<and> is_leap y then 29 else month_lengths ! nat (m - 1))"

definition days_before_month :: "int \<Rightarrow> int \<Rightarrow> int" where
  "days_before_month y m =
     sum_list (take (nat (m - 1)) month_lengths) + (if 2 < m \<and> is_leap y then 1 else 0)"

definition ymd2ord :: "int \<Rightarrow> int \<Rightarrow> int \<Rightarrow> int" where
  "ymd2ord y m d = days_before_year y + days_before_month y m + d"

text \<open>
  The constructor \<^verbatim>\<open>datetime(year, month, day, hour, minute)\<close>: a field out of range
  raises ValueError.
\<close>

definition datetime_new :: "int \<Rightarrow> int \<Rightarrow> int \<Rightarrow> int \<Rightarrow> int \<Rightarrow> error + datetime" where
  "datetime_new y m d h mi =
     (if 1 \<le> y \<and> y \<le> 9999 \<and> 1 \<le> m \<and> m \<le> 12 \<and> 1 \<le> d \<and> d \<le> days_in_month y m
         \<and> 0 \<le> h \<and> h \<le> 23 \<and> 0 \<le> mi \<and> mi \<le> 59
      then Inr \<lparr>dt_ordinal = ymd2ord y m d, dt_minute = h * 60 + mi\<rparr>
      else Inl ValueError)"

definition is_digit :: "char \<Rightarrow> bool" where
  "is_digit c = (c \<in> set ''0123456789'')"

definition digit_val :: "char \<Rightarrow> int" where
  "digit_val c = int (of_char c) - 48"

definition decimal :: "string \<Rightarrow> int" where
  "decimal s = foldl (\<lambda>acc c. 10 * acc + digit_val c) 0 s"

text \<open>
  The characters \<^verbatim>\<open>\s\<close> matches among the first 128: the space, the characters 9 to
  13 and the characters 28 to 31.
\<close>

definition is_space :: "char \<Rightarrow> bool" where
  "is_space c = (of_char c \<in> set [32, 9, 10, 11, 12, 13, 28, 29, 30, 31 :: nat])"

text \<open>
  The groups of the regular expression \<^verbatim>\<open>_strptime\<close> builds for the directives
  \<^verbatim>\<open>%d\<close>, \<^verbatim>\<open>%m\<close>, \<^verbatim>\<open>%Y\<close>, \<^verbatim>\<open>%H\<close> and \<^verbatim>\<open>%M\<close>:
  \<^verbatim>\<open>3[0-1]|[1-2]\d|0[1-9]|[1-9]| [1-9]\<close>, \<^verbatim>\<open>1[0-2]|0[1-9]|[1-9]\<close>,
  \<^verbatim>\<open>\d\d\d\d\<close>, \<^verbatim>\<open>2[0-3]|[0-1]\d|\d\<close> and \<^verbatim>\<open>[0-5]\d|\d\<close>.
\<close>

definition day_field :: "string \<Rightarrow> bool" where
  "day_field s =
     (case s of
        [a] \<Rightarrow> a \<in> set ''123456789''
      | [a, b] \<Rightarrow> (a = CHR ''3'' \<and> b \<in> set ''01'') \<or> (a \<in> set ''12'' \<and> is_digit b)
                   \<or> (a = CHR ''0'' \<and> b \<in> set ''123456789'')
                   \<or> (a = CHR '' '' \<and> b \<in> set ''123456789'')
      | _ \<Rightarrow> False)"

definition month_field :: "string \<Rightarrow> bool" where
  "month_field s =
     (case s of
        [a] \<Rightarrow> a \<in> set ''123456789''
      | [a, b] \<Rightarrow> (a = CHR ''1'' \<and> b \<in> set ''012'') \<or> (a = CHR ''0'' \<and> b \<in> set ''123456789'')
      | _ \<Rightarrow> False)"

definition year_field :: "string \<Rightarrow> bool" where
  "year_field s = (length s = 4 \<and> list_all is_digit s)"

definition hour_field :: "string \<Rightarrow> bool" where
  "hour_field s =
     (case s of
        [a] \<Rightarrow> is_digit a
      | [a, b] \<Rightarrow> (a = CHR ''2'' \<and> b \<in> set ''0123'') \<or> (a \<in> set ''01'' \<and> is_digit b)
      | _ \<Rightarrow> False)"

definition minute_field :: "string \<Rightarrow> bool" where
  "minute_field s =
     (case s of
        [a] \<Rightarrow> is_digit a
      | [a, b] \<Rightarrow> a \<in> set ''012345'' \<and> is_digit b
      | _ \<Rightarrow> False)"

text \<open>The part of a string before the first \<open>c\<close> and the part after it.\<close>

definition split_at :: "char \<Rightarrow> string \<Rightarrow> (string \<times> string) option" where
  "split_at c s =
     (if c \<in> set s
      then Some (takeWhile (\<lambda>x. x \<noteq> c) s, tl (dropWhile (\<lambda>x. x \<noteq> c) s))
      else None)"

text \<open>
  \<^verbatim>\<open>datetime.strptime(s, "%d/%m/%Y %H:%M")\<close>. The string has to match
  \<^verbatim>\<open>(%d)/(%m)/(%Y)\s+(%H):(%M)\<close> from its first character to its last, or
  ValueError is raised. No group matches a \<^verbatim>\<open>/\<close> or a \<^verbatim>\<open>:\<close>, so the day is what
  stands before the first \<^verbatim>\<open>/\<close>, the month what stands before the second, the year the
  four characters after it, the hour what stands between the white space and the first
  \<^verbatim>\<open>:\<close>, and the minute the rest. The numbers then go to the constructor. Of the
  characters beyond the first 128, which \<^verbatim>\<open>\d\<close> and \<^verbatim>\<open>\s\<close> also match in part,
  none is a digit or a space here.
\<close>

definition strptime :: "string \<Rightarrow> error + datetime" where
  "strptime s =
     (case split_at CHR ''/'' s of
        None \<Rightarrow> Inl ValueError
      | Some (d, s1) \<Rightarrow>
          (case split_at CHR ''/'' s1 of
             None \<Rightarrow> Inl ValueError
           | Some (m, s2) \<Rightarrow>
               (case split_at CHR '':'' (dropWhile is_space (drop 4 s2)) of
                  None \<Rightarrow> Inl ValueError
                | Some (h, mi) \<Rightarrow>
                    if day_field d \<and> month_field m \<and> year_field (take 4 s2)
                       \<and> list_ex is_space (take 1 (drop 4 s2))
                       \<and> hour_field h \<and> minute_field mi
                    then datetime_new (decimal (take 4 s2)) (decimal m)
                           (decimal (filter is_digit d)) (decimal h) (decimal mi)
                    else Inl ValueError)))"

text \<open>
  \<^verbatim>\<open>date + " " + time\<close>: adding \<^verbatim>\<open>None\<close> to a string, or a string to
  \<^verbatim>\<open>None\<close>, raises TypeError.
\<close>

definition date_time_str :: "string option \<Rightarrow> string option \<Rightarrow> error + string" where
  "date_time_str d t =
     (case d of None \<Rightarrow> Inl TypeError
      | Some ds \<Rightarrow> (case t of None \<Rightarrow> Inl TypeError | Some ts \<Rightarrow> Inr (ds @ '' '' @ ts)))"

definition parse_instant :: "string option \<Rightarrow> string option \<Rightarrow> error + datetime" where
  "parse_instant d t = bind_err (date_time_str d t) strptime"

text \<open>Comparison, \<^verbatim>\<open>+ timedelta(days=k)\<close> and difference in minutes of two datetimes.\<close>

definition dt_total :: "datetime \<Rightarrow> int" where
  "dt_total a = dt_ordinal a * 1440 + dt_minute a"

definition dt_less :: "datetime \<Rightarrow> datetime \<Rightarrow> bool" where
  "dt_less a b = (dt_ordinal a < dt_ordinal b \<or> (dt_ordinal a = dt_ordinal b \<and> dt_minute a < dt_minute b))"

definition add_days :: "datetime \<Rightarrow> int \<Rightarrow> datetime" where
  "add_days a k = a\<lparr>dt_ordinal := dt_ordinal a + k\<rparr>"

definition minutes_between :: "datetime \<Rightarrow> datetime \<Rightarrow> int" where
  "minutes_between a b = (dt_ordinal b - dt_ordinal a) * 1440 + (dt_minute b - dt_minute a)"

subsection \<open>Neo4jGraph.calculate\_duration and calculate\_total\_time\<close>

text \<open>
  The body of \<^verbatim>\<open>calculate_duration\<close> after the two \<^verbatim>\<open>strptime\<close> calls (lines
  136 to 146). Both sums with a \<^verbatim>\<open>timedelta\<close> land on a date that one of the two
  parsed operands already has, so the range check of the datetime module cannot fail there.
\<close>

definition duration_between :: "datetime \<Rightarrow> datetime \<Rightarrow> int" where
  "duration_between departure_datetime arrival_datetime =
     (let day_difference = dt_ordinal arrival_datetime - dt_ordinal departure_datetime;
          arrival1 = (if day_difference < 0 then add_days arrival_datetime (- day_difference)
                      else arrival_datetime);
          next_train_departure = add_days departure_datetime day_difference;
          arrival2 = (if dt_less next_train_departure arrival1 then next_train_departure
                      else arrival1)
      in minutes_between departure_datetime arrival2)"

definition calculate_duration ::
  "string option \<Rightarrow> string option \<Rightarrow> string option \<Rightarrow> string option \<Rightarrow> error + int" where
  "calculate_duration departure_date departure_time arrival_date arrival_time =
     (if departure_time = None \<or> arrival_time = None then Inr 0
      else bind_err (parse_instant departure_date departure_time) (\<lambda>departure_datetime.
           bind_err (parse_instant arrival_date arrival_time) (\<lambda>arrival_datetime.
           Inr (duration_between departure_datetime arrival_datetime))))"

definition calculate_total_time ::
  "string option \<Rightarrow> string option \<Rightarrow> string option \<Rightarrow> string option \<Rightarrow> error + int" where
  "calculate_total_time departure_date departure_time arrival_date arrival_time =
     bind_err (parse_instant departure_date departure_time) (\<lambda>departure_datetime.
     bind_err (parse_instant arrival_date arrival_time) (\<lambda>arrival_datetime.
     Inr (minutes_between departure_datetime arrival_datetime)))"

subsection \<open>The timetable store\<close>

text \<open>
  The store holds \<^verbatim>\<open>(n:Gare)-[r:MOOVE]->(neighbor:Gare)\<close> relationships. One is kept
  as the name of each end (\<^verbatim>\<open>n.nom\<close>, \<^verbatim>\<open>neighbor.nom\<close>) and the five properties
  InsertRelation.py writes, each a string or absent. The store is a finite list.
\<close>

record moove =
  origin :: string
  neighbor :: string
  datedepart :: "string option"
  datearrive :: "string option"
  hdepart :: "string option"
  harrive :: "string option"
  numtrain :: "string option"

type_synonym graph = "moove list"

text \<open>
  Cypher compares two strings in lexicographic order; a comparison with \<^verbatim>\<open>null\<close> is
  \<^verbatim>\<open>null\<close>, which a \<^verbatim>\<open>WHERE\<close> clause does not accept.
\<close>

definition cypher_ge :: "string option \<Rightarrow> string option \<Rightarrow> bool" where
  "cypher_ge a b = (case a of None \<Rightarrow> False
                    | Some x \<Rightarrow> (case b of None \<Rightarrow> False | Some y \<Rightarrow> y \<le> x))"

definition cypher_eq :: "string option \<Rightarrow> string option \<Rightarrow> bool" where
  "cypher_eq a b = (case a of None \<Rightarrow> False
                    | Some x \<Rightarrow> (case b of None \<Rightarrow> False | Some y \<Rightarrow> x = y))"

text \<open>
  \<^verbatim>\<open>ORDER BY r.datedepart, r.hdepart\<close>: ascending, on the two strings. The rows that
  reach it have both properties, by the \<^verbatim>\<open>WHERE\<close> clause. Rows with equal keys keep
  the order of the store.
\<close>

definition order_key :: "moove \<Rightarrow> string \<times> string" where
  "order_key r = (case datedepart r of None \<Rightarrow> [] | Some d \<Rightarrow> d,
                  case hdepart r of None \<Rightarrow> [] | Some t \<Rightarrow> t)"

definition neighbors_query :: "graph \<Rightarrow> string \<Rightarrow> string option \<Rightarrow> string option \<Rightarrow> moove list" where
  "neighbors_query g node_name departure_date departure_time =
     sort_key order_key
       (filter (\<lambda>r. origin r = node_name \<and> cypher_ge (datedepart r) departure_date
                     \<and> cypher_ge (hdepart r) departure_time) g)"

definition premiernodes_query :: "graph \<Rightarrow> string \<Rightarrow> string option \<Rightarrow> string option \<Rightarrow> moove list" where
  "premiernodes_query g node_name departure_date departure_time =
     sort_key order_key
       (filter (\<lambda>r. origin r = node_name \<and> cypher_eq (datedepart r) departure_date
                     \<and> cypher_ge (hdepart r) departure_time) g)"

subsection \<open>Node\<close>

text \<open>
  A cumulative distance is a number of minutes or \<^verbatim>\<open>float('inf')\<close>, the value every
  new Node starts with.
\<close>

datatype cost = Cost int | CostInf

fun cost_add :: "cost \<Rightarrow> int \<Rightarrow> cost" where
  "cost_add (Cost a) d = Cost (a + d)"
| "cost_add CostInf d = CostInf"

fun cost_less :: "cost \<Rightarrow> cost \<Rightarrow> bool" where
  "cost_less (Cost a) (Cost b) = (a < b)"
| "cost_less (Cost a) CostInf = True"
| "cost_less CostInf c = False"

text \<open>
  The class defines no \<^verbatim>\<open>__eq__\<close>, so \<^verbatim>\<open>==\<close>, \<^verbatim>\<open>in\<close>, \<^verbatim>\<open>list.index\<close> and
  \<^verbatim>\<open>list.remove\<close> compare Nodes by object identity. \<open>nid\<close> is that identity: each
  Node the search creates gets a number no earlier Node has.
\<close>

datatype node = Node (nid: nat) (name: string) (parent: "node option") (distance: cost)
  (departure_date: "string option") (departure_time: "string option")
  (arrival_date: "string option") (arrival_time: "string option")
  (train_number: "string option")

definition new_node ::
  "nat \<Rightarrow> string \<Rightarrow> string option \<Rightarrow> string option \<Rightarrow> string option \<Rightarrow> string option
     \<Rightarrow> string option \<Rightarrow> node" where
  "new_node i nm dd dt ad at tn = Node i nm None CostInf dd dt ad at tn"

fun set_parent_distance :: "node \<Rightarrow> node \<Rightarrow> cost \<Rightarrow> node" where
  "set_parent_distance (Node i nm p c dd dt ad at tn) p' c' = Node i nm (Some p') c' dd dt ad at tn"

definition node_in :: "node \<Rightarrow> node list \<Rightarrow> bool" where
  "node_in n xs = (nid n \<in> set (map nid xs))"

subsection \<open>Neo4jGraph.get\_neighbors and get\_premiernodes\<close>

text \<open>
  The loop of \<^verbatim>\<open>get_neighbors\<close> over the rows of its query (lines 101 to 113). The
  result is the list of the pairs the generator yields, in order, or the exception one of
  the rows raises. \<open>dep_date\<close> and \<open>dep_time\<close> are the parameters
  \<^verbatim>\<open>departure_date\<close> and \<^verbatim>\<open>departure_time\<close>; \<open>fresh\<close> is the identity of
  the next Node that is yielded.
\<close>

fun neighbors_loop ::
  "string option \<Rightarrow> string option \<Rightarrow> nat \<Rightarrow> moove list \<Rightarrow> error + (node \<times> int) list" where
  "neighbors_loop dep_date dep_time fresh [] = Inr []"
| "neighbors_loop dep_date dep_time fresh (r # rs) =
     (if datedepart r = None \<or> hdepart r = None \<or> datearrive r = None \<or> harrive r = None
      then neighbors_loop dep_date dep_time fresh rs
      else
        let neighbor = new_node fresh (neighbor r) (datedepart r) (hdepart r) (datearrive r)
                         (harrive r) (numtrain r)
        in bind_err (parse_instant (departure_date neighbor) (departure_time neighbor))
             (\<lambda>next_train_departure.
           bind_err (parse_instant dep_date dep_time) (\<lambda>current_arrival.
           if dt_less current_arrival next_train_departure
           then bind_err (calculate_duration dep_date dep_time
                            (arrival_date neighbor) (arrival_time neighbor))
                  (\<lambda>neighbor_distance.
                bind_err (neighbors_loop dep_date dep_time (Suc fresh) rs)
                  (\<lambda>rest. Inr ((neighbor, neighbor_distance) # rest)))
           else neighbors_loop dep_date dep_time fresh rs)))"

definition get_neighbors ::
  "graph \<Rightarrow> nat \<Rightarrow> string \<Rightarrow> string option \<Rightarrow> string option \<Rightarrow> error + (node \<times> int) list" where
  "get_neighbors g fresh node_name dep_date dep_time =
     neighbors_loop dep_date dep_time fresh
       (neighbors_query g node_name dep_date dep_time)"

text \<open>
  \<^verbatim>\<open>get_premiernodes\<close> returns \<^verbatim>\<open>n.nom AS name\<close>, the name of the station the
  trains leave. Its Nodes never enter a frontier; they all carry identity 0.
\<close>

definition get_premiernodes :: "graph \<Rightarrow> string \<Rightarrow> string option \<Rightarrow> string option \<Rightarrow> node list" where
  "get_premiernodes g node_name dep_date dep_time =
     (if dep_date = None \<or> dep_time = None then []
      else map (\<lambda>r. new_node 0 (origin r) (datedepart r) (hdepart r) (datearrive r) (harrive r)
                       (numtrain r))
             (filter (\<lambda>r. \<not> (datedepart r = None \<or> hdepart r = None \<or> datearrive r = None
                               \<or> harrive r = None))
                (premiernodes_query g node_name dep_date dep_time)))"

subsection \<open>dijkstra\<close>

text \<open>
  \<^verbatim>\<open>min(open_set, key=lambda x: x.distance)\<close> keeps the first Node among those of
  least distance: the running best is replaced only by a strictly smaller one.
\<close>

fun min_node :: "node \<Rightarrow> node list \<Rightarrow> node" where
  "min_node best [] = best"
| "min_node best (x # xs) =
     min_node (if cost_less (distance x) (distance best) then x else best) xs"

text \<open>
  \<^verbatim>\<open>open_set.remove(current_node)\<close> removes the first element that is
  \<^verbatim>\<open>current_node\<close>. The Node was taken from the list, so the ValueError of a missing
  element cannot occur.
\<close>

fun remove_node :: "node \<Rightarrow> node list \<Rightarrow> node list" where
  "remove_node n [] = []"
| "remove_node n (x # xs) = (if nid x = nid n then xs else x # remove_node n xs)"

text \<open>The walk over the back-references (lines 196 to 199), before the reversal.\<close>

fun path_to :: "node \<Rightarrow> node list" where
  "path_to (Node i nm None c dd dt ad at tn) = [Node i nm None c dd dt ad at tn]"
| "path_to (Node i nm (Some p) c dd dt ad at tn) = Node i nm (Some p) c dd dt ad at tn # path_to p"

text \<open>
  The body of the \<^verbatim>\<open>for\<close> loop (lines 205 to 222) for one yielded pair. Where the
  source changes a Node that is an element of \<^verbatim>\<open>open_set\<close>, the element changes.
\<close>

fun index_of :: "node \<Rightarrow> node list \<Rightarrow> nat" where
  "index_of n [] = 0"
| "index_of n (x # xs) = (if nid x = nid n then 0 else Suc (index_of n xs))"

fun set_distance_parent :: "node \<Rightarrow> cost \<Rightarrow> node \<Rightarrow> node" where
  "set_distance_parent (Node i nm p c dd dt ad at tn) c' p' = Node i nm (Some p') c' dd dt ad at tn"

definition relax :: "node \<Rightarrow> string set \<Rightarrow> node list \<Rightarrow> node \<times> int \<Rightarrow> node list" where
  "relax current_node closed open_nodes yielded =
     (let neighbor = fst yielded; neighbor_distance = snd yielded in
      if name neighbor \<in> closed then open_nodes
      else
        let tentative_distance = cost_add (distance current_node) neighbor_distance in
        if cost_less tentative_distance (distance neighbor)
        then
          (let neighbor' = set_parent_distance neighbor current_node tentative_distance in
           if \<not> node_in neighbor open_nodes then open_nodes @ [neighbor']
           else map (\<lambda>x. if nid x = nid neighbor then neighbor' else x) open_nodes)
        else if node_in neighbor open_nodes
        then
          (let i = index_of neighbor open_nodes; existing_neighbor = open_nodes ! i in
           if cost_less tentative_distance (distance existing_neighbor)
           then open_nodes[i := set_distance_parent existing_neighbor tentative_distance current_node]
           else open_nodes)
        else open_nodes)"

text \<open>
  The state of the \<^verbatim>\<open>while\<close> loop: the two sets, the identity of the next Node, and
  the log of the calls made to \<^verbatim>\<open>get_neighbors\<close> (station, date, time), which the
  source does not keep and the statements about the queries read.
\<close>

record search_state =
  open_set :: "node list"
  closed_set :: "string set"
  next_id :: nat
  queries :: "(string \<times> string option \<times> string option) list"

datatype step = Finished "error + node list option" "(string \<times> string option \<times> string option) list"
  | Continue search_state

text \<open>
  One round of the \<^verbatim>\<open>while\<close> loop (lines 191 to 224). \<open>Finished (Inr None)\<close> is
  \<^verbatim>\<open>return None\<close>, \<open>Finished (Inr (Some p))\<close> is \<^verbatim>\<open>return path[::-1]\<close>, and
  \<open>Finished (Inl e)\<close> is an exception that leaves the function.
\<close>

definition dijkstra_step :: "graph \<Rightarrow> string \<Rightarrow> search_state \<Rightarrow> step" where
  "dijkstra_step g goal_node_name st =
     (case open_set st of
        [] \<Rightarrow> Finished (Inr None) (queries st)
      | x # xs \<Rightarrow>
          let current_node = min_node x xs;
              open1 = remove_node current_node (open_set st)
          in if name current_node = goal_node_name
             then Finished (Inr (Some (rev (path_to current_node)))) (queries st)
             else
               let closed1 = insert (name current_node) (closed_set st);
                   log1 = queries st @ [(name current_node, departure_date current_node,
                                         departure_time current_node)]
               in (case get_neighbors g (next_id st) (name current_node)
                          (departure_date current_node) (departure_time current_node) of
                     Inl e \<Rightarrow> Finished (Inl e) log1
                   | Inr ys \<Rightarrow>
                       Continue \<lparr>open_set = foldl (relax current_node closed1) open1 ys,
                                 closed_set = closed1,
                                 next_id = next_id st + length ys,
                                 queries = log1\<rparr>))"

partial_function (option) dijkstra_loop ::
  "graph \<Rightarrow> string \<Rightarrow> search_state
     \<Rightarrow> ((error + node list option) \<times> (string \<times> string option \<times> string option) list) option" where
  "dijkstra_loop g goal_node_name st =
     (case dijkstra_step g goal_node_name st of
        Finished r log \<Rightarrow> Some (r, log)
      | Continue st' \<Rightarrow> dijkstra_loop g goal_node_name st')"

declare dijkstra_loop.simps [code]

definition start_node ::
  "string \<Rightarrow> string option \<Rightarrow> string option \<Rightarrow> string option \<Rightarrow> string option \<Rightarrow> node" where
  "start_node start_node_name dep_date dep_time arr_date arr_time =
     Node 0 start_node_name None (Cost 0) dep_date dep_time arr_date arr_time (Some [])"

definition dijkstra_trace ::
  "string \<Rightarrow> string \<Rightarrow> string option \<Rightarrow> string option \<Rightarrow> string option \<Rightarrow> string option \<Rightarrow> graph
     \<Rightarrow> ((error + node list option) \<times> (string \<times> string option \<times> string option) list) option" where
  "dijkstra_trace start_node_name goal_node_name dep_date dep_time arr_date arr_time g =
     dijkstra_loop g goal_node_name
       \<lparr>open_set = [start_node start_node_name dep_date dep_time arr_date arr_time],
        closed_set = {}, next_id = 1, queries = []\<rparr>"

text \<open>
  \<^verbatim>\<open>dijkstra\<close> itself: what the function returns or raises; \<open>None\<close> at the outer
  level would be a call that never returns.
\<close>

definition dijkstra ::
  "string \<Rightarrow> string \<Rightarrow> string option \<Rightarrow> string option \<Rightarrow> string option \<Rightarrow> string option \<Rightarrow> graph
     \<Rightarrow> (error + node list option) option" where
  "dijkstra start_node_name goal_node_name dep_date dep_time arr_date arr_time g =
     map_option fst
       (dijkstra_trace start_node_name goal_node_name dep_date dep_time arr_date arr_time g)"

subsection \<open>main: the branch for a desired arrival time\<close>

text \<open>
  The branch \<^verbatim>\<open>mode == 'normal'\<close>, \<^verbatim>\<open>mode_choice2 == "2"\<close> of \<^verbatim>\<open>main\<close>, up to the
  \<^verbatim>\<open>print\<close> of line 466; the lines after it only format the path that was selected. An
  element of \<^verbatim>\<open>Liste\<close> is a path with its \<^verbatim>\<open>temps\<close> appended; it is kept as the pair
  of the two.
\<close>

type_synonym scored_path = "node list \<times> int"

text \<open>
  The loop over \<^verbatim>\<open>premier_nodes\<close> (lines 429 to 445). \<open>date0\<close> is the date the user
  gave (\<^verbatim>\<open>departure_date\<close> of \<^verbatim>\<open>main\<close>). \<^verbatim>\<open>path[-2]\<close> raises IndexError on a
  path of one Node.
\<close>

fun collect_paths ::
  "graph \<Rightarrow> string \<Rightarrow> string \<Rightarrow> string \<Rightarrow> string \<Rightarrow> node list \<Rightarrow> scored_path list \<Rightarrow> int list
     \<Rightarrow> (error + scored_path list \<times> int list) option" where
  "collect_paths g start_node_name goal_node_name date0 arrival_time_mode [] Liste L =
     Some (Inr (Liste, L))"
| "collect_paths g start_node_name goal_node_name date0 arrival_time_mode (premier_node # rest)
     Liste L =
     (case dijkstra start_node_name goal_node_name (departure_date premier_node)
             (departure_time premier_node) (arrival_date premier_node)
             (arrival_time premier_node) g of
        None \<Rightarrow> None
      | Some (Inl e) \<Rightarrow> Some (Inl e)
      | Some (Inr None) \<Rightarrow>
          collect_paths g start_node_name goal_node_name date0 arrival_time_mode rest Liste L
      | Some (Inr (Some path)) \<Rightarrow>
          if path = []
          then collect_paths g start_node_name goal_node_name date0 arrival_time_mode rest Liste L
          else if length path < 2 then Some (Inl IndexError)
          else
            let arrival_node = path ! (length path - 2) in
            (case calculate_total_time (Some date0) (arrival_time arrival_node) (Some date0)
                    (Some arrival_time_mode) of
               Inl e \<Rightarrow> Some (Inl e)
             | Inr temps \<Rightarrow>
                 collect_paths g start_node_name goal_node_name date0 arrival_time_mode rest
                   (Liste @ [(path, temps)]) (L @ [temps])))"

text \<open>The loop of lines 450 to 455.\<close>

fun smallest_positive_loop :: "int option \<Rightarrow> int list \<Rightarrow> int option" where
  "smallest_positive_loop smallest_positive [] = smallest_positive"
| "smallest_positive_loop smallest_positive (number # rest) =
     smallest_positive_loop
       (if 0 < number
        then (case smallest_positive of
                None \<Rightarrow> Some number
              | Some s \<Rightarrow> if number < s then Some number else Some s)
        else smallest_positive)
       rest"

text \<open>
  \<^verbatim>\<open>smallest_positive in sous_liste\<close>: no Node equals an integer or \<^verbatim>\<open>None\<close>, so
  the test holds when the appended \<^verbatim>\<open>temps\<close> is the number looked for.
\<close>

definition contains_value :: "int option \<Rightarrow> scored_path \<Rightarrow> bool" where
  "contains_value smallest_positive sous_liste = (smallest_positive = Some (snd sous_liste))"

text \<open>
  The loop of lines 458 to 463. \<open>None\<close> is a loop that ends without the assignment
  \<^verbatim>\<open>index=i\<close>.
\<close>

fun first_index :: "int option \<Rightarrow> nat \<Rightarrow> scored_path list \<Rightarrow> nat option" where
  "first_index smallest_positive i [] = None"
| "first_index smallest_positive i (sous_liste # rest) =
     (if contains_value smallest_positive sous_liste then Some i
      else first_index smallest_positive (Suc i) rest)"

text \<open>
  What the branch reports: \<open>NoTrainFound\<close> is the message of line 490,
  \<open>Selected\<close> holds the three values line 466 prints. Reading \<^verbatim>\<open>index\<close> on line 465
  when no assignment was made raises UnboundLocalError.
\<close>

datatype report = NoTrainFound | Selected "int option" nat scored_path

definition select_path :: "scored_path list \<Rightarrow> int list \<Rightarrow> error + report" where
  "select_path Liste L =
     (if L \<noteq> []
      then
        (let smallest_positive = smallest_positive_loop None L in
         case first_index smallest_positive 0 Liste of
           None \<Rightarrow> Inl UnboundLocalError
         | Some i \<Rightarrow> Inr (Selected smallest_positive i (Liste ! i)))
      else Inr NoTrainFound)"

definition main_arrival_mode ::
  "graph \<Rightarrow> string \<Rightarrow> string \<Rightarrow> string \<Rightarrow> string \<Rightarrow> string \<Rightarrow> (error + report) option" where
  "main_arrival_mode g start_node_name goal_node_name date0 time0 arrival_time_mode =
     (let premier_nodes = get_premiernodes g start_node_name (Some date0) (Some time0) in
      case collect_paths g start_node_name goal_node_name date0 arrival_time_mode
             premier_nodes [] [] of
        None \<Rightarrow> None
      | Some (Inl e) \<Rightarrow> Some (Inl e)
      | Some (Inr (Liste, L)) \<Rightarrow> Some (select_path Liste L))"

subsection \<open>Definitions for the statements\<close>

text \<open>
  The duration as the specification words it, on instants counted in minutes: shift the
  arrival forward by \<open>- day_difference\<close> days when \<open>day_difference\<close> is negative, clamp it
  to the departure plus \<open>day_difference\<close> days, and take the minutes from the departure.
\<close>

definition spec_duration_minutes :: "int \<Rightarrow> int \<Rightarrow> int \<Rightarrow> int" where
  "spec_duration_minutes departure arrival day_difference =
     (let corrected = (if day_difference < 0 then arrival + 1440 * (- day_difference)
                       else arrival);
          limit = departure + 1440 * day_difference
      in (if limit < corrected then limit else corrected) - departure)"

text \<open>
  The variant of the search loop. A row of the store departs after a Node when both
  departure instants parse and the row's is strictly later; the rank of a Node is the number
  of such rows in the store.
\<close>

definition departs_after :: "node \<Rightarrow> moove \<Rightarrow> bool" where
  "departs_after n r =
     (case parse_instant (departure_date n) (departure_time n) of
        Inl e \<Rightarrow> False
      | Inr a \<Rightarrow> (case parse_instant (datedepart r) (hdepart r) of
                    Inl e \<Rightarrow> False
                  | Inr b \<Rightarrow> dt_less a b))"

definition rank :: "graph \<Rightarrow> node \<Rightarrow> nat" where
  "rank g n = length (filter (departs_after n) g)"

text \<open>
  The states the search reaches keep distinct identities in the frontier, all below the
  next one.
\<close>

definition fresh_ids :: "search_state \<Rightarrow> bool" where
  "fresh_ids st = (distinct (map nid (open_set st))
                   \<and> list_all (\<lambda>n. nid n < next_id st) (open_set st))"

text \<open>
  A row is well formed when the departure and the arrival it holds parse; a frontier is
  parsable when the departure instant of each of its Nodes parses.
\<close>

definition parses :: "string option \<Rightarrow> string option \<Rightarrow> bool" where
  "parses d t = (case parse_instant d t of Inl e \<Rightarrow> False | Inr a \<Rightarrow> True)"

definition well_formed_row :: "moove \<Rightarrow> bool" where
  "well_formed_row r =
     ((datedepart r = None \<or> hdepart r = None \<or> parses (datedepart r) (hdepart r))
      \<and> (datearrive r = None \<or> harrive r = None \<or> parses (datearrive r) (harrive r)))"

definition parsable_frontier :: "search_state \<Rightarrow> bool" where
  "parsable_frontier st = list_all (\<lambda>n. parses (departure_date n) (departure_time n)) (open_set st)"

text \<open>
  What line 438 computes for a path that was found: the minutes from the arrival time its
  second-last Node carries, read on the date the user gave, to the desired arrival time
  read on the same date.
\<close>

definition scored_by_second_last :: "string \<Rightarrow> string \<Rightarrow> scored_path \<Rightarrow> bool" where
  "scored_by_second_last date0 arrival_time_mode e =
     (2 \<le> length (fst e)
      \<and> calculate_total_time (Some date0) (arrival_time (fst e ! (length (fst e) - 2)))
            (Some date0) (Some arrival_time_mode) = Inr (snd e))"

text \<open>A store row with every property present.\<close>

definition mk_moove ::
  "string \<Rightarrow> string \<Rightarrow> string \<Rightarrow> string \<Rightarrow> string \<Rightarrow> string \<Rightarrow> string \<Rightarrow> moove" where
  "mk_moove a b dd dt ad at tn =
     \<lparr>origin = a, neighbor = b, datedepart = Some dd, datearrive = Some ad, hdepart = Some dt,
      harrive = Some at, numtrain = Some tn\<rparr>"

text \<open>The stores of the concrete runs below; every date is the first or second of June 2024.\<close>

definition missed_train_store :: graph where
  "missed_train_store =
     [mk_moove ''A'' ''B'' ''01/06/2024'' ''08:30'' ''01/06/2024'' ''10:00'' ''1'',
      mk_moove ''B'' ''C'' ''01/06/2024'' ''09:00'' ''01/06/2024'' ''09:30'' ''2'']"

definition two_trains_store :: graph where
  "two_trains_store =
     [mk_moove ''A'' ''B'' ''01/06/2024'' ''09:00'' ''01/06/2024'' ''10:00'' ''1'',
      mk_moove ''A'' ''B'' ''01/06/2024'' ''09:30'' ''01/06/2024'' ''10:30'' ''2'']"

definition late_trains_store :: graph where
  "late_trains_store =
     [mk_moove ''A'' ''B'' ''01/06/2024'' ''08:00'' ''01/06/2024'' ''09:00'' ''1'',
      mk_moove ''A'' ''B'' ''01/06/2024'' ''08:30'' ''01/06/2024'' ''09:30'' ''2'']"

definition five_trains_store :: graph where
  "five_trains_store =
     [mk_moove ''A'' ''B'' ''01/06/2024'' ''08:00'' ''01/06/2024'' ''11:15'' ''1'',
      mk_moove ''A'' ''B'' ''01/06/2024'' ''08:10'' ''01/06/2024'' ''12:10'' ''2'',
      mk_moove ''A'' ''B'' ''01/06/2024'' ''08:20'' ''01/06/2024'' ''11:48'' ''3'',
      mk_moove ''A'' ''B'' ''01/06/2024'' ''08:30'' ''01/06/2024'' ''10:30'' ''4'',
      mk_moove ''A'' ''B'' ''01/06/2024'' ''08:40'' ''01/06/2024'' ''10:40'' ''5'']"

definition late_journey_store :: graph where
  "late_journey_store =
     [mk_moove ''A'' ''B'' ''01/06/2024'' ''08:00'' ''01/06/2024'' ''09:00'' ''1'',
      mk_moove ''A'' ''B'' ''01/06/2024'' ''08:10'' ''01/06/2024'' ''09:10'' ''2'',
      mk_moove ''B'' ''C'' ''01/06/2024'' ''09:30'' ''01/06/2024'' ''13:00'' ''3'']"

definition next_day_store :: graph where
  "next_day_store =
     [mk_moove ''A'' ''B'' ''02/06/2024'' ''07:00'' ''02/06/2024'' ''09:00'' ''1'']"

section \<open>The duration arithmetic\<close>

lemma strptime_minute_range:
  assumes "strptime s = Inr d"
  shows "0 \<le> dt_minute d \<and> dt_minute d < 1440"
  using assms
  by (auto simp: strptime_def datetime_new_def split: if_splits option.splits prod.splits)

lemma parse_instant_minute_range:
  assumes "parse_instant d t = Inr x"
  shows "0 \<le> dt_minute x \<and> dt_minute x < 1440"
  using assms strptime_minute_range
  by (auto simp: parse_instant_def bind_err_def date_time_str_def split: option.splits sum.splits)

lemma parse_instant_Some:
  assumes "parse_instant d t = Inr x"
  shows "d \<noteq> None \<and> t \<noteq> None"
  using assms
  by (auto simp: parse_instant_def bind_err_def date_time_str_def split: option.splits)

lemma duration_between_spec:
  assumes "0 \<le> dt_minute a" "dt_minute a < 1440" "0 \<le> dt_minute b" "dt_minute b < 1440"
  shows "duration_between a b
           = spec_duration_minutes (dt_total a) (dt_total b) (dt_ordinal b - dt_ordinal a)"
  using assms
  by (auto simp: duration_between_def spec_duration_minutes_def Let_def dt_less_def dt_total_def
      add_days_def minutes_between_def)

lemma duration_between_nonpositive:
  assumes "dt_ordinal b \<le> dt_ordinal a"
  shows "duration_between a b \<le> 0"
  using assms
  by (auto simp: duration_between_def Let_def dt_less_def add_days_def minutes_between_def)

lemma calculate_duration_nonpositive:
  assumes "parse_instant dep_date dep_time = Inr dep"
    and "parse_instant arr_date arr_time = Inr arr"
    and "dt_ordinal arr \<le> dt_ordinal dep"
  shows "\<exists>d. calculate_duration dep_date dep_time arr_date arr_time = Inr d \<and> d \<le> 0"
  using assms duration_between_nonpositive[OF assms(3)] parse_instant_Some[OF assms(1)]
    parse_instant_Some[OF assms(2)]
  by (auto simp: calculate_duration_def bind_err_def)

text \<open>
  Claim C1. The claim: the duration of a stored connection is never negative, and a
  connection leaving at 23:50 on 01/06/2024 whose stored arrival is 00:20 of the same date
  gets 30 minutes. On that input \<^verbatim>\<open>calculate_duration\<close> returns minus 1410 minutes: the
  two dates are equal, so \<^verbatim>\<open>day_difference\<close> is 0, no day is added, and the arrival is
  not later than the departure, so the clamp leaves it where it is.
\<close>

theorem calculate_duration_overnight_same_date:
  "calculate_duration (Some ''01/06/2024'') (Some ''23:50'') (Some ''01/06/2024'') (Some ''00:20'')
     = Inr (- 1410)"
  by code_simp

text \<open>
  Claim C6. When the departure time or the arrival time is \<^verbatim>\<open>None\<close>,
  \<^verbatim>\<open>calculate_duration\<close> returns 0, whatever the other three arguments are.
\<close>

theorem calculate_duration_missing_time:
  assumes "dep_time = None \<or> arr_time = None"
  shows "calculate_duration dep_date dep_time arr_date arr_time = Inr 0"
  using assms by (simp add: calculate_duration_def)

theorem calculate_duration_missing_time_witness:
  "(None = (None :: string option) \<or> Some ''10:15'' = None)
   \<and> calculate_duration (Some ''01/06/2024'') None None (Some ''10:15'') = Inr 0"
  using calculate_duration_missing_time [of None "Some ''10:15''" "Some ''01/06/2024''" None]
  by simp

text \<open>
  Claim C9. When both instants parse, \<^verbatim>\<open>calculate_duration\<close> returns what the
  specification describes: the arrival is moved forward by \<open>- day_difference\<close> days when
  the arrival date precedes the departure date, the moved arrival is clamped down to the
  departure plus \<open>day_difference\<close> days when it exceeds it, and the result is the number
  of minutes from the departure to that instant. \<open>day_difference\<close> is the difference of
  the two dates in days.
\<close>

theorem calculate_duration_shift_clamp:
  assumes "parse_instant dep_date dep_time = Inr dep"
    and "parse_instant arr_date arr_time = Inr arr"
  shows "calculate_duration dep_date dep_time arr_date arr_time
           = Inr (spec_duration_minutes (dt_total dep) (dt_total arr)
                    (dt_ordinal arr - dt_ordinal dep))"
proof -
  have "dep_time \<noteq> None" "arr_time \<noteq> None"
    using assms parse_instant_Some by blast+
  moreover have "duration_between dep arr
      = spec_duration_minutes (dt_total dep) (dt_total arr) (dt_ordinal arr - dt_ordinal dep)"
    using assms parse_instant_minute_range by (intro duration_between_spec) blast+
  ultimately show ?thesis
    using assms by (auto simp: calculate_duration_def bind_err_def)
qed

theorem calculate_duration_shift_clamp_witness:
  "parse_instant (Some ''02/06/2024'') (Some ''23:50'') = Inr \<lparr>dt_ordinal = 739039, dt_minute = 1430\<rparr>
   \<and> parse_instant (Some ''01/06/2024'') (Some ''00:20'') = Inr \<lparr>dt_ordinal = 739038, dt_minute = 20\<rparr>
   \<and> calculate_duration (Some ''02/06/2024'') (Some ''23:50'') (Some ''01/06/2024'') (Some ''00:20'')
       = Inr (spec_duration_minutes (739039 * 1440 + 1430) (739038 * 1440 + 20) (- 1))
   \<and> spec_duration_minutes (739039 * 1440 + 1430) (739038 * 1440 + 20) (- 1) = - 1440"
proof -
  have dep: "parse_instant (Some ''02/06/2024'') (Some ''23:50'')
               = Inr \<lparr>dt_ordinal = 739039, dt_minute = 1430\<rparr>"
    by code_simp
  have arr: "parse_instant (Some ''01/06/2024'') (Some ''00:20'')
               = Inr \<lparr>dt_ordinal = 739038, dt_minute = 20\<rparr>"
    by code_simp
  have val: "spec_duration_minutes (739039 * 1440 + 1430) (739038 * 1440 + 20) (- 1) = - 1440"
    by (simp add: spec_duration_minutes_def)
  show ?thesis
    using calculate_duration_shift_clamp [OF dep arr] dep arr val
    by (simp add: dt_total_def)
qed

section \<open>The search\<close>

text \<open>
  Claim C7. A search whose destination is its origin returns the path made of the start
  Node alone, whose distance is 0, whatever the instant and the store; the log of the
  calls to \<^verbatim>\<open>get_neighbors\<close> is empty.
\<close>

theorem dijkstra_same_station:
  "dijkstra_trace a a dep_date dep_time arr_date arr_time g
     = Some (Inr (Some [start_node a dep_date dep_time arr_date arr_time]), [])
   \<and> dijkstra a a dep_date dep_time arr_date arr_time g
     = Some (Inr (Some [start_node a dep_date dep_time arr_date arr_time]))
   \<and> distance (start_node a dep_date dep_time arr_date arr_time) = Cost 0"
  by (simp add: dijkstra_def dijkstra_trace_def dijkstra_loop.simps dijkstra_step_def
      start_node_def)

text \<open>
  Claim C2. The claim: the store is asked for the trains that leave a station at or after
  the instant the Node arrives there. The search passes the departure date and time of
  the Node, which for a Node reached by a train are those of that train at the station
  before. In the run below the Node of B is reached at 10:00 by a train that left A at
  08:30; the call for B asks from 08:30, and the path takes the train that leaves B at
  09:00.
\<close>

theorem dijkstra_queries_departure_instant:
  "map_option snd (dijkstra_trace ''A'' ''C'' (Some ''01/06/2024'') (Some ''08:00'')
       (Some ''01/06/2024'') (Some ''08:00'') missed_train_store)
     = Some [(''A'', Some ''01/06/2024'', Some ''08:00''),
             (''B'', Some ''01/06/2024'', Some ''08:30'')]
   \<and> map_option (map_sum id (map_option (map (\<lambda>n. (name n, departure_time n, arrival_time n)))))
       (dijkstra ''A'' ''C'' (Some ''01/06/2024'') (Some ''08:00'')
          (Some ''01/06/2024'') (Some ''08:00'') missed_train_store)
     = Some (Inr (Some [(''A'', Some ''08:00'', Some ''08:00''),
                        (''B'', Some ''08:30'', Some ''10:00''),
                        (''C'', Some ''09:00'', Some ''09:30'')]))"
  by code_simp

text \<open>
  Claim C3. The claim: the frontier holds at most one Node for a station. After the first
  round of a search from A over a store with two trains from A to B, the frontier holds
  two Nodes named B.
\<close>

theorem frontier_two_labels_one_station:
  "(case dijkstra_step two_trains_store ''C''
          \<lparr>open_set = [start_node ''A'' (Some ''01/06/2024'') (Some ''08:00'')
                         (Some ''01/06/2024'') (Some ''08:00'')],
           closed_set = {}, next_id = 1, queries = []\<rparr> of
      Finished r log \<Rightarrow> []
    | Continue st \<Rightarrow> map (\<lambda>n. (name n, departure_time n, distance n)) (open_set st))
   = [(''B'', Some ''09:00'', Cost 0), (''B'', Some ''09:30'', Cost 0)]"
  by code_simp

text \<open>
  Claim C8. The claim: the query of \<^verbatim>\<open>get_neighbors\<close> returns the trains whose departure
  instant is on or after the given one, a train of a later date at an earlier clock time
  included. The query compares the date and the time each on its own: asked from
  01/06/2024 08:00, it drops the train of 02/06/2024 07:00.
\<close>

theorem neighbors_query_drops_later_date:
  "neighbors_query next_day_store ''A'' (Some ''01/06/2024'') (Some ''08:00'') = []
   \<and> get_neighbors next_day_store 1 ''A'' (Some ''01/06/2024'') (Some ''08:00'') = Inr []"
  by code_simp

subsection \<open>Termination of the search loop\<close>

lemma dt_less_irrefl: "\<not> dt_less a a"
  by (simp add: dt_less_def)

lemma dt_less_trans: "dt_less a b \<Longrightarrow> dt_less b c \<Longrightarrow> dt_less a c"
  by (auto simp: dt_less_def)

lemma set_parent_distance_fields:
  "nid (set_parent_distance n p c) = nid n"
  "name (set_parent_distance n p c) = name n"
  "departure_date (set_parent_distance n p c) = departure_date n"
  "departure_time (set_parent_distance n p c) = departure_time n"
  by (cases n; simp)+

lemma set_distance_parent_fields:
  "nid (set_distance_parent n c p) = nid n"
  "departure_date (set_distance_parent n c p) = departure_date n"
  "departure_time (set_distance_parent n c p) = departure_time n"
  by (cases n; simp)+

lemma rank_cong:
  assumes "departure_date n = departure_date n'" and "departure_time n = departure_time n'"
  shows "rank g n = rank g n'"
proof -
  have "departs_after n = departs_after n'"
    using assms by (simp add: departs_after_def fun_eq_iff)
  then show ?thesis by (simp add: rank_def)
qed

lemma length_filter_less:
  assumes "\<And>x. x \<in> set xs \<Longrightarrow> P x \<Longrightarrow> Q x"
    and "x0 \<in> set xs" and "Q x0" and "\<not> P x0"
  shows "length (filter P xs) < length (filter Q xs)"
  using assms
proof (induction xs)
  case Nil
  then show ?case by simp
next
  case (Cons y ys)
  have le: "length (filter P ys) \<le> length (filter Q ys)"
  proof -
    have "filter P ys = filter P (filter Q ys)"
      using Cons.prems(1) by (auto simp: filter_filter intro!: filter_cong)
    then show ?thesis by (metis length_filter_le)
  qed
  show ?case
  proof (cases "x0 = y")
    case True
    then show ?thesis using le Cons.prems(3,4) by simp
  next
    case False
    then have "x0 \<in> set ys" using Cons.prems(2) by simp
    then have "length (filter P ys) < length (filter Q ys)"
      using Cons.IH Cons.prems by simp
    then show ?thesis using Cons.prems(1)[of y] by auto
  qed
qed

lemma neighbors_loop_yield:
  assumes "neighbors_loop dd dt fresh rs = Inr ys" and "(n, d) \<in> set ys"
  shows "\<exists>r \<in> set rs. \<exists>a b. departure_date n = datedepart r \<and> departure_time n = hdepart r
           \<and> parse_instant dd dt = Inr a
           \<and> parse_instant (datedepart r) (hdepart r) = Inr b \<and> dt_less a b"
  using assms
proof (induction rs arbitrary: fresh ys)
  case Nil
  then show ?case by simp
next
  case (Cons r rs)
  show ?case
  proof (cases "datedepart r = None \<or> hdepart r = None \<or> datearrive r = None \<or> harrive r = None")
    case True
    then have "neighbors_loop dd dt fresh rs = Inr ys" using Cons.prems(1) by simp
    from Cons.IH[OF this Cons.prems(2)] show ?thesis by auto
  next
    case False
    let ?nb = "new_node fresh (neighbor r) (datedepart r) (hdepart r) (datearrive r) (harrive r) (numtrain r)"
    obtain b where b: "parse_instant (datedepart r) (hdepart r) = Inr b"
      using Cons.prems(1) False
      by (cases "parse_instant (datedepart r) (hdepart r)") (auto simp: Let_def bind_err_def new_node_def)
    obtain a where a: "parse_instant dd dt = Inr a"
      using Cons.prems(1) False b
      by (cases "parse_instant dd dt") (auto simp: Let_def bind_err_def new_node_def)
    show ?thesis
    proof (cases "dt_less a b")
      case lt: True
      obtain nd where nd: "calculate_duration dd dt (datearrive r) (harrive r) = Inr nd"
        using Cons.prems(1) False a b lt
        by (cases "calculate_duration dd dt (datearrive r) (harrive r)")
           (auto simp: Let_def bind_err_def new_node_def)
      obtain rest where rest: "neighbors_loop dd dt (Suc fresh) rs = Inr rest"
        and ys: "ys = (?nb, nd) # rest"
        using Cons.prems(1) False a b lt nd
        by (cases "neighbors_loop dd dt (Suc fresh) rs")
           (auto simp: Let_def bind_err_def new_node_def)
      show ?thesis
      proof (cases "(n, d) = (?nb, nd)")
        case True
        then show ?thesis using a b lt by (auto simp: new_node_def)
      next
        case False
        then have "(n, d) \<in> set rest" using Cons.prems(2) ys by auto
        from Cons.IH[OF rest this] show ?thesis by auto
      qed
    next
      case ge: False
      then have "neighbors_loop dd dt fresh rs = Inr ys"
        using Cons.prems(1) False a b by (simp add: Let_def bind_err_def new_node_def)
      from Cons.IH[OF this Cons.prems(2)] show ?thesis by auto
    qed
  qed
qed

lemma neighbors_loop_ids:
  assumes "neighbors_loop dd dt fresh rs = Inr ys"
  shows "map (\<lambda>y. nid (fst y)) ys = [fresh ..< fresh + length ys]"
  using assms
proof (induction rs arbitrary: fresh ys)
  case Nil
  then show ?case by simp
next
  case (Cons r rs)
  show ?case
  proof (cases "datedepart r = None \<or> hdepart r = None \<or> datearrive r = None \<or> harrive r = None")
    case True
    then have "neighbors_loop dd dt fresh rs = Inr ys" using Cons.prems(1) by simp
    from Cons.IH[OF this] show ?thesis .
  next
    case False
    let ?nb = "new_node fresh (neighbor r) (datedepart r) (hdepart r) (datearrive r) (harrive r) (numtrain r)"
    obtain b where b: "parse_instant (datedepart r) (hdepart r) = Inr b"
      using Cons.prems(1) False
      by (cases "parse_instant (datedepart r) (hdepart r)") (auto simp: Let_def bind_err_def new_node_def)
    obtain a where a: "parse_instant dd dt = Inr a"
      using Cons.prems(1) False b
      by (cases "parse_instant dd dt") (auto simp: Let_def bind_err_def new_node_def)
    show ?thesis
    proof (cases "dt_less a b")
      case lt: True
      obtain nd where nd: "calculate_duration dd dt (datearrive r) (harrive r) = Inr nd"
        using Cons.prems(1) False a b lt
        by (cases "calculate_duration dd dt (datearrive r) (harrive r)")
           (auto simp: Let_def bind_err_def new_node_def)
      obtain rest where rest: "neighbors_loop dd dt (Suc fresh) rs = Inr rest"
        and ys: "ys = (?nb, nd) # rest"
        using Cons.prems(1) False a b lt nd
        by (cases "neighbors_loop dd dt (Suc fresh) rs")
           (auto simp: Let_def bind_err_def new_node_def)
      have "map (\<lambda>y. nid (fst y)) rest = [Suc fresh ..< Suc fresh + length rest]"
        using Cons.IH[OF rest] .
      moreover have "[fresh ..< fresh + length ys] = fresh # [Suc fresh ..< Suc fresh + length rest]"
        using ys by (simp add: upt_rec)
      ultimately show ?thesis using ys by (simp add: new_node_def)
    next
      case ge: False
      then have "neighbors_loop dd dt fresh rs = Inr ys"
        using Cons.prems(1) False a b by (simp add: Let_def bind_err_def new_node_def)
      from Cons.IH[OF this] show ?thesis .
    qed
  qed
qed

lemma neighbors_query_subset: "set (neighbors_query g nm dd dt) \<subseteq> set g"
  by (auto simp: neighbors_query_def)

lemma get_neighbors_rank:
  assumes "get_neighbors g fresh (name cur) (departure_date cur) (departure_time cur) = Inr ys"
    and "(n, d) \<in> set ys"
  shows "rank g n < rank g cur"
proof -
  from neighbors_loop_yield[OF assms(1)[unfolded get_neighbors_def] assms(2)]
  obtain r a b where r: "r \<in> set (neighbors_query g (name cur) (departure_date cur) (departure_time cur))"
    and f: "departure_date n = datedepart r" "departure_time n = hdepart r"
    and a: "parse_instant (departure_date cur) (departure_time cur) = Inr a"
    and b: "parse_instant (datedepart r) (hdepart r) = Inr b" and lt: "dt_less a b"
    by blast
  have rg: "r \<in> set g" using r neighbors_query_subset by blast
  have 1: "\<And>x. x \<in> set g \<Longrightarrow> departs_after n x \<Longrightarrow> departs_after cur x"
    using f a b lt
    by (auto simp: departs_after_def split: sum.splits intro: dt_less_trans)
  have 2: "departs_after cur r" using a b lt by (simp add: departs_after_def)
  have 3: "\<not> departs_after n r" using f b by (simp add: departs_after_def dt_less_irrefl)
  show ?thesis unfolding rank_def
    using length_filter_less[of g "departs_after n" "departs_after cur" r] 1 rg 2 3 by blast
qed

lemma min_node_in: "min_node best xs \<in> set (best # xs)"
  by (induction xs arbitrary: best) auto

lemma remove_node_set: "set (remove_node n xs) \<subseteq> set xs"
  by (induction xs) auto

lemma remove_node_distinct:
  "distinct (map nid xs) \<Longrightarrow> distinct (map nid (remove_node n xs))"
proof (induction xs)
  case Nil
  then show ?case by simp
next
  case (Cons x xs)
  then show ?case using remove_node_set[of n xs] by auto
qed

lemma remove_node_mset:
  assumes "n \<in> set xs" and "distinct (map nid xs)"
  shows "mset xs = add_mset n (mset (remove_node n xs))"
  using assms
proof (induction xs)
  case Nil
  then show ?case by simp
next
  case (Cons x xs)
  show ?case
  proof (cases "nid x = nid n")
    case True
    have "x = n"
    proof (rule ccontr)
      assume "x \<noteq> n"
      then have "n \<in> set xs" using Cons.prems(1) by simp
      then have "nid n \<in> nid ` set xs" by blast
      then show False using Cons.prems(2) True by simp
    qed
    then show ?thesis by simp
  next
    case False
    then have "n \<in> set xs" using Cons.prems(1) by auto
    then show ?thesis using Cons.IH Cons.prems(2) False by simp
  qed
qed

lemma relax_fresh:
  assumes "\<not> node_in (fst y) xs"
  shows "relax cur closed xs y =
           (if name (fst y) \<notin> closed \<and> cost_less (cost_add (distance cur) (snd y)) (distance (fst y))
            then xs @ [set_parent_distance (fst y) cur (cost_add (distance cur) (snd y))]
            else xs)"
  using assms by (simp add: relax_def Let_def)

lemma foldl_relax_fresh:
  assumes "\<forall>y \<in> set ys. nid (fst y) \<notin> nid ` set xs"
    and "distinct (map (\<lambda>y. nid (fst y)) ys)"
  shows "\<exists>zs. foldl (relax cur closed) xs ys = xs @ zs
           \<and> distinct (map nid zs)
           \<and> (\<forall>z \<in> set zs. \<exists>y \<in> set ys. nid z = nid (fst y)
                  \<and> departure_date z = departure_date (fst y)
                  \<and> departure_time z = departure_time (fst y))"
  using assms
proof (induction ys arbitrary: xs)
  case Nil
  then show ?case by simp
next
  case (Cons y ys)
  have nin: "\<not> node_in (fst y) xs" using Cons.prems(1) by (simp add: node_in_def)
  let ?y' = "set_parent_distance (fst y) cur (cost_add (distance cur) (snd y))"
  let ?xs' = "relax cur closed xs y"
  have cases: "?xs' = xs \<or> ?xs' = xs @ [?y']"
    using relax_fresh[OF nin, of cur closed] by (auto split: if_splits)
  have idy: "nid ?y' = nid (fst y)" by (simp add: set_parent_distance_fields)
  have fresh': "\<forall>y2 \<in> set ys. nid (fst y2) \<notin> nid ` set ?xs'"
  proof
    fix y2 assume y2: "y2 \<in> set ys"
    have "nid (fst y2) \<notin> nid ` set xs" using Cons.prems(1) y2 by simp
    moreover have "nid (fst y2) \<noteq> nid (fst y)"
    proof -
      have "nid (fst y) \<notin> (\<lambda>y. nid (fst y)) ` set ys" using Cons.prems(2) by simp
      then show ?thesis using y2 by (metis imageI)
    qed
    ultimately show "nid (fst y2) \<notin> nid ` set ?xs'"
      using cases idy by auto
  qed
  have dist': "distinct (map (\<lambda>y. nid (fst y)) ys)" using Cons.prems(2) by simp
  from Cons.IH[OF fresh' dist'] obtain zs where zs:
    "foldl (relax cur closed) ?xs' ys = ?xs' @ zs" "distinct (map nid zs)"
    "\<forall>z \<in> set zs. \<exists>y \<in> set ys. nid z = nid (fst y)
        \<and> departure_date z = departure_date (fst y) \<and> departure_time z = departure_time (fst y)"
    by blast
  from cases show ?case
  proof
    assume eq: "?xs' = xs"
    have "foldl (relax cur closed) xs (y # ys) = xs @ zs" using zs(1) eq by simp
    moreover have "\<forall>z \<in> set zs. \<exists>y' \<in> set (y # ys). nid z = nid (fst y')
        \<and> departure_date z = departure_date (fst y') \<and> departure_time z = departure_time (fst y')"
      using zs(3) by auto
    ultimately show ?thesis using zs(2) by blast
  next
    assume eq: "?xs' = xs @ [?y']"
    have 1: "foldl (relax cur closed) xs (y # ys) = xs @ (?y' # zs)" using zs(1) eq by simp
    have "nid ?y' \<notin> nid ` set zs"
    proof
      assume "nid ?y' \<in> nid ` set zs"
      then obtain z where z: "z \<in> set zs" "nid z = nid (fst y)" using idy by auto
      then obtain y2 where y2: "y2 \<in> set ys" "nid z = nid (fst y2)" using zs(3) by blast
      have "nid (fst y) \<notin> (\<lambda>y. nid (fst y)) ` set ys" using Cons.prems(2) by simp
      then show False using y2 z(2) by (metis imageI)
    qed
    then have 2: "distinct (map nid (?y' # zs))" using zs(2) by simp
    have 3: "\<forall>z \<in> set (?y' # zs). \<exists>y' \<in> set (y # ys). nid z = nid (fst y')
        \<and> departure_date z = departure_date (fst y') \<and> departure_time z = departure_time (fst y')"
      using zs(3) by (auto simp: set_parent_distance_fields)
    show ?thesis using 1 2 3 by blast
  qed
qed

lemma dijkstra_step_Continue:
  assumes "dijkstra_step g goal st = Continue st'"
  shows "\<exists>x xs ys. open_set st = x # xs \<and> name (min_node x xs) \<noteq> goal
           \<and> get_neighbors g (next_id st) (name (min_node x xs))
                (departure_date (min_node x xs)) (departure_time (min_node x xs)) = Inr ys
           \<and> open_set st' = foldl (relax (min_node x xs) (insert (name (min_node x xs)) (closed_set st)))
                               (remove_node (min_node x xs) (open_set st)) ys
           \<and> next_id st' = next_id st + length ys"
proof (cases "open_set st")
  case Nil
  then show ?thesis using assms by (simp add: dijkstra_step_def)
next
  case (Cons x xs)
  let ?cur = "min_node x xs"
  have ne: "name ?cur \<noteq> goal"
    using assms Cons by (auto simp: dijkstra_step_def Let_def split: if_splits)
  show ?thesis
  proof (cases "get_neighbors g (next_id st) (name ?cur) (departure_date ?cur) (departure_time ?cur)")
    case (Inl e)
    then show ?thesis using assms Cons ne by (simp add: dijkstra_step_def Let_def)
  next
    case (Inr ys)
    then have "st' = \<lparr>open_set = foldl (relax ?cur (insert (name ?cur) (closed_set st)))
                                    (remove_node ?cur (open_set st)) ys,
                      closed_set = insert (name ?cur) (closed_set st),
                      next_id = next_id st + length ys,
                      queries = queries st @ [(name ?cur, departure_date ?cur, departure_time ?cur)]\<rparr>"
      using assms Cons ne by (simp add: dijkstra_step_def Let_def)
    then show ?thesis using Cons ne Inr by auto
  qed
qed

lemma dijkstra_step_decreases:
  assumes inv: "fresh_ids st" and step: "dijkstra_step g goal st = Continue st'"
  shows "fresh_ids st' \<and> mset (map (rank g) (open_set st')) < mset (map (rank g) (open_set st))"
proof -
  from dijkstra_step_Continue[OF step] obtain x xs ys where
    op: "open_set st = x # xs" and
    gn: "get_neighbors g (next_id st) (name (min_node x xs))
           (departure_date (min_node x xs)) (departure_time (min_node x xs)) = Inr ys" and
    op': "open_set st' = foldl (relax (min_node x xs) (insert (name (min_node x xs)) (closed_set st)))
                               (remove_node (min_node x xs) (open_set st)) ys" and
    nx: "next_id st' = next_id st + length ys"
    by blast
  define cur where "cur = min_node x xs"
  define open1 where "open1 = remove_node cur (open_set st)"
  have cur_in: "cur \<in> set (open_set st)" using min_node_in[of x xs] op cur_def by simp
  have dist: "distinct (map nid (open_set st))" and
    low: "\<forall>n \<in> set (open_set st). nid n < next_id st"
    using inv by (auto simp: fresh_ids_def list_all_iff)
  have ids: "map (\<lambda>y. nid (fst y)) ys = [next_id st ..< next_id st + length ys]"
    using gn neighbors_loop_ids unfolding get_neighbors_def by blast
  have ys_dist: "distinct (map (\<lambda>y. nid (fst y)) ys)" unfolding ids by simp
  have ys_range: "\<forall>y \<in> set ys. next_id st \<le> nid (fst y) \<and> nid (fst y) < next_id st + length ys"
  proof
    fix y assume "y \<in> set ys"
    then have "nid (fst y) \<in> set (map (\<lambda>y. nid (fst y)) ys)" by simp
    then show "next_id st \<le> nid (fst y) \<and> nid (fst y) < next_id st + length ys"
      unfolding ids by simp
  qed
  have open1_sub: "set open1 \<subseteq> set (open_set st)"
    unfolding open1_def by (rule remove_node_set)
  have open1_low: "\<forall>n \<in> set open1. nid n < next_id st" using open1_sub low by blast
  have open1_dist: "distinct (map nid open1)"
    unfolding open1_def using dist by (rule remove_node_distinct)
  have fresh: "\<forall>y \<in> set ys. nid (fst y) \<notin> nid ` set open1"
    using ys_range open1_low by fastforce
  from foldl_relax_fresh[OF fresh ys_dist, of cur "insert (name cur) (closed_set st)"]
  obtain zs where zs: "foldl (relax cur (insert (name cur) (closed_set st))) open1 ys = open1 @ zs"
    "distinct (map nid zs)"
    "\<forall>z \<in> set zs. \<exists>y \<in> set ys. nid z = nid (fst y)
        \<and> departure_date z = departure_date (fst y) \<and> departure_time z = departure_time (fst y)"
    by blast
  have op'': "open_set st' = open1 @ zs" using op' zs(1) by (simp add: cur_def open1_def)
  have zs_range: "\<forall>z \<in> set zs. next_id st \<le> nid z \<and> nid z < next_id st + length ys"
    using zs(3) ys_range by metis
  have zs_rank: "\<forall>z \<in> set zs. rank g z < rank g cur"
  proof
    fix z assume "z \<in> set zs"
    then obtain y where y: "y \<in> set ys" "departure_date z = departure_date (fst y)"
      "departure_time z = departure_time (fst y)" using zs(3) by blast
    have "(fst y, snd y) \<in> set ys" using y(1) by simp
    then have "rank g (fst y) < rank g cur"
      using get_neighbors_rank[OF gn[folded cur_def]] by blast
    moreover have "rank g z = rank g (fst y)" using y(2,3) by (rule rank_cong)
    ultimately show "rank g z < rank g cur" by simp
  qed
  have inv': "fresh_ids st'"
  proof -
    have "nid ` set open1 \<inter> nid ` set zs = {}" using open1_low zs_range by fastforce
    then have "distinct (map nid (open1 @ zs))" using open1_dist zs(2) by simp
    moreover have "\<forall>n \<in> set (open1 @ zs). nid n < next_id st + length ys"
      using open1_low zs_range by fastforce
    ultimately show ?thesis using op'' nx by (simp add: fresh_ids_def list_all_iff)
  qed
  have M: "mset (map (rank g) (open_set st))
             = mset (map (rank g) open1) + {#rank g cur#}"
  proof -
    have "mset (open_set st) = add_mset cur (mset open1)"
      unfolding open1_def using cur_in dist by (rule remove_node_mset)
    then have "image_mset (rank g) (mset (open_set st)) = image_mset (rank g) (add_mset cur (mset open1))"
      by simp
    then show ?thesis by simp
  qed
  have M': "mset (map (rank g) (open_set st'))
              = mset (map (rank g) open1) + mset (map (rank g) zs)"
    using op'' by simp
  have "(mset (map (rank g) open1) + mset (map (rank g) zs),
         mset (map (rank g) open1) + {#rank g cur#}) \<in> mult {(a, b). a < b}"
  proof (rule one_step_implies_mult)
    show "{#rank g cur#} \<noteq> {#}" by simp
    show "\<forall>k \<in> set_mset (mset (map (rank g) zs)). \<exists>j \<in> set_mset {#rank g cur#}. (k, j) \<in> {(a, b). a < b}"
      using zs_rank by auto
  qed
  then have "mset (map (rank g) (open_set st')) < mset (map (rank g) (open_set st))"
    unfolding M M' by (simp add: less_multiset_def multp_def)
  with inv' show ?thesis by simp
qed

lemma dijkstra_loop_total:
  assumes "fresh_ids st"
  shows "\<exists>r. dijkstra_loop g goal st = Some r"
  using assms
proof (induction "mset (map (rank g) (open_set st))" arbitrary: st rule: less_induct)
  case less
  show ?case
  proof (cases "dijkstra_step g goal st")
    case (Finished r log)
    have "dijkstra_loop g goal st = Some (r, log)"
      by (subst dijkstra_loop.simps) (simp add: Finished)
    then show ?thesis by blast
  next
    case (Continue st')
    have eq: "dijkstra_loop g goal st = dijkstra_loop g goal st'"
      by (subst dijkstra_loop.simps) (simp add: Continue)
    from dijkstra_step_decreases[OF less.prems Continue]
    have "fresh_ids st'" "mset (map (rank g) (open_set st')) < mset (map (rank g) (open_set st))"
      by simp_all
    from less.hyps[OF this(2) this(1)] show ?thesis using eq by simp
  qed
qed

subsection \<open>No exception on a well-formed store\<close>

lemma parses_iff: "parses d t \<longleftrightarrow> (\<exists>a. parse_instant d t = Inr a)"
  by (auto simp: parses_def split: sum.splits)

lemma neighbors_loop_no_error:
  assumes "list_all well_formed_row rs" and "parses dd dt"
  shows "\<exists>ys. neighbors_loop dd dt fresh rs = Inr ys"
  using assms(1)
proof (induction rs arbitrary: fresh)
  case Nil
  then show ?case by simp
next
  case (Cons r rs)
  then have wf: "well_formed_row r" and wfs: "list_all well_formed_row rs" by simp_all
  obtain a where a: "parse_instant dd dt = Inr a" using assms(2) parses_iff by blast
  have dtS: "dt \<noteq> None" using a parse_instant_Some by blast
  show ?case
  proof (cases "datedepart r = None \<or> hdepart r = None \<or> datearrive r = None \<or> harrive r = None")
    case True
    then show ?thesis using Cons.IH[OF wfs] by simp
  next
    case False
    obtain b where b: "parse_instant (datedepart r) (hdepart r) = Inr b"
      using wf False by (auto simp: well_formed_row_def parses_iff)
    obtain c where c: "parse_instant (datearrive r) (harrive r) = Inr c"
      using wf False by (auto simp: well_formed_row_def parses_iff)
    have cd: "\<exists>nd. calculate_duration dd dt (datearrive r) (harrive r) = Inr nd"
      using a c dtS False by (simp add: calculate_duration_def bind_err_def)
    show ?thesis
    proof (cases "dt_less a b")
      case True
      obtain nd where nd: "calculate_duration dd dt (datearrive r) (harrive r) = Inr nd"
        using cd by blast
      obtain rest where rest: "neighbors_loop dd dt (Suc fresh) rs = Inr rest"
        using Cons.IH[OF wfs] by blast
      show ?thesis using False a b True nd rest
        by (auto simp: Let_def bind_err_def new_node_def)
    next
      case ge: False
      obtain rest where rest: "neighbors_loop dd dt fresh rs = Inr rest"
        using Cons.IH[OF wfs] by blast
      show ?thesis using False a b ge rest
        by (auto simp: Let_def bind_err_def new_node_def)
    qed
  qed
qed

lemma neighbors_query_well_formed:
  assumes "list_all well_formed_row g"
  shows "list_all well_formed_row (neighbors_query g nm dd dt)"
  using assms neighbors_query_subset[of g nm dd dt] by (auto simp: list_all_iff)

lemma get_neighbors_no_error:
  assumes "list_all well_formed_row g" and "parses dd dt"
  shows "\<exists>ys. get_neighbors g fresh nm dd dt = Inr ys"
  unfolding get_neighbors_def
  using neighbors_loop_no_error[OF neighbors_query_well_formed[OF assms(1)] assms(2)] .

lemma dijkstra_step_no_error:
  assumes "list_all well_formed_row g" and "parsable_frontier st"
  shows "(\<exists>p log. dijkstra_step g goal st = Finished (Inr p) log)
         \<or> (\<exists>st'. dijkstra_step g goal st = Continue st')"
proof (cases "open_set st")
  case Nil
  then show ?thesis by (simp add: dijkstra_step_def)
next
  case (Cons x xs)
  let ?cur = "min_node x xs"
  have "?cur \<in> set (open_set st)" using min_node_in[of x xs] Cons by simp
  then have "parses (departure_date ?cur) (departure_time ?cur)"
    using assms(2) by (simp add: parsable_frontier_def list_all_iff)
  from get_neighbors_no_error[OF assms(1) this] obtain ys where
    "get_neighbors g (next_id st) (name ?cur) (departure_date ?cur) (departure_time ?cur) = Inr ys"
    by blast
  then show ?thesis using Cons by (simp add: dijkstra_step_def Let_def)
qed

lemma foldl_relax_parsable:
  assumes "list_all (\<lambda>n. parses (departure_date n) (departure_time n)) xs"
    and "list_all (\<lambda>y. parses (departure_date (fst y)) (departure_time (fst y))) ys"
  shows "list_all (\<lambda>n. parses (departure_date n) (departure_time n))
           (foldl (relax cur closed) xs ys)"
  using assms
proof (induction ys arbitrary: xs)
  case Nil
  then show ?case by simp
next
  case (Cons y ys)
  let ?P = "\<lambda>n. parses (departure_date n) (departure_time n)"
  have y: "?P (fst y)" using Cons.prems(2) by simp
  have "list_all ?P (relax cur closed xs y)"
  proof -
    have upd: "\<And>i. list_all ?P (xs[i := set_distance_parent (xs ! i) (cost_add (distance cur) (snd y)) cur])"
    proof -
      fix i
      show "list_all ?P (xs[i := set_distance_parent (xs ! i) (cost_add (distance cur) (snd y)) cur])"
      proof (cases "i < length xs")
        case True
        then have "?P (xs ! i)" using Cons.prems(1) by (simp add: list_all_length)
        then have "?P (set_distance_parent (xs ! i) (cost_add (distance cur) (snd y)) cur)"
          by (simp add: set_distance_parent_fields)
        then show ?thesis using Cons.prems(1)
          by (auto simp: list_all_iff dest!: set_update_subset_insert[THEN subsetD])
      next
        case False
        then show ?thesis using Cons.prems(1) by (simp add: list_update_beyond)
      qed
    qed
    have mp: "list_all ?P (map (\<lambda>x. if nid x = nid (fst y)
                then set_parent_distance (fst y) cur (cost_add (distance cur) (snd y)) else x) xs)"
      using Cons.prems(1) y by (auto simp: list_all_iff set_parent_distance_fields)
    have ap: "list_all ?P (xs @ [set_parent_distance (fst y) cur (cost_add (distance cur) (snd y))])"
      using Cons.prems(1) y by (simp add: set_parent_distance_fields)
    show ?thesis
      unfolding relax_def Let_def using upd mp ap Cons.prems(1) by (auto split: if_splits)
  qed
  moreover have "list_all (\<lambda>y. ?P (fst y)) ys" using Cons.prems(2) by simp
  ultimately show ?case using Cons.IH by simp
qed

lemma remove_node_parsable:
  "list_all P xs \<Longrightarrow> list_all P (remove_node n xs)"
  using remove_node_set[of n xs] by (auto simp: list_all_iff)

lemma dijkstra_step_parsable:
  assumes "parsable_frontier st" and "dijkstra_step g goal st = Continue st'"
  shows "parsable_frontier st'"
proof -
  from dijkstra_step_Continue[OF assms(2)] obtain x xs ys where
    op: "open_set st = x # xs" and
    gn: "get_neighbors g (next_id st) (name (min_node x xs))
           (departure_date (min_node x xs)) (departure_time (min_node x xs)) = Inr ys" and
    op': "open_set st' = foldl (relax (min_node x xs) (insert (name (min_node x xs)) (closed_set st)))
                               (remove_node (min_node x xs) (open_set st)) ys"
    by blast
  have "list_all (\<lambda>y. parses (departure_date (fst y)) (departure_time (fst y))) ys"
    unfolding list_all_iff
  proof
    fix y assume "y \<in> set ys"
    then have "(fst y, snd y) \<in> set ys" by simp
    from neighbors_loop_yield[OF gn[unfolded get_neighbors_def] this]
    show "parses (departure_date (fst y)) (departure_time (fst y))"
      by (auto simp: parses_iff)
  qed
  moreover have "list_all (\<lambda>n. parses (departure_date n) (departure_time n))
                   (remove_node (min_node x xs) (open_set st))"
    using assms(1) by (simp add: parsable_frontier_def remove_node_parsable)
  ultimately show ?thesis
    unfolding parsable_frontier_def op' by (rule foldl_relax_parsable[rotated])
qed

lemma dijkstra_loop_no_error:
  assumes "list_all well_formed_row g" and "fresh_ids st" and "parsable_frontier st"
  shows "\<exists>p log. dijkstra_loop g goal st = Some (Inr p, log)"
  using assms(2,3)
proof (induction "mset (map (rank g) (open_set st))" arbitrary: st rule: less_induct)
  case less
  from dijkstra_step_no_error[OF assms(1) less.prems(2), of goal]
  show ?case
  proof
    assume "\<exists>p log. dijkstra_step g goal st = Finished (Inr p) log"
    then obtain p log where f: "dijkstra_step g goal st = Finished (Inr p) log" by blast
    have "dijkstra_loop g goal st = Some (Inr p, log)"
      by (subst dijkstra_loop.simps) (simp add: f)
    then show ?thesis by blast
  next
    assume "\<exists>st'. dijkstra_step g goal st = Continue st'"
    then obtain st' where c: "dijkstra_step g goal st = Continue st'" by blast
    have eq: "dijkstra_loop g goal st = dijkstra_loop g goal st'"
      by (subst dijkstra_loop.simps) (simp add: c)
    from dijkstra_step_decreases[OF less.prems(1) c]
    have 1: "fresh_ids st'" and 2: "mset (map (rank g) (open_set st')) < mset (map (rank g) (open_set st))"
      by simp_all
    have 3: "parsable_frontier st'" using dijkstra_step_parsable[OF less.prems(2) c] .
    from less.hyps[OF 2 1 3] show ?thesis using eq by simp
  qed
qed


text \<open>
  Claim C10. Every call of \<^verbatim>\<open>dijkstra\<close> returns, on every store: the loop ends with a
  path, with no path, or with the exception a row raises; and on a store whose rows are
  well formed, from an instant that parses, it ends with a path or with no path. A Node
  that \<^verbatim>\<open>get_neighbors\<close> yields leaves strictly later than the Node being expanded
  (\<open>neighbors_loop_yield\<close>), so it has fewer rows of the store leaving after it; each
  round replaces one Node of the frontier by Nodes of smaller rank, and the multiset of
  the ranks of the frontier decreases (\<open>dijkstra_step_decreases\<close>).
\<close>

theorem dijkstra_terminates:
  "(\<exists>r. dijkstra start_node_name goal_node_name dep_date dep_time arr_date arr_time g = Some r)
   \<and> (list_all well_formed_row g \<and> parses dep_date dep_time
        \<longrightarrow> (\<exists>p. dijkstra start_node_name goal_node_name dep_date dep_time arr_date arr_time g
                    = Some (Inr p)))"
proof -
  let ?st = "\<lparr>open_set = [start_node start_node_name dep_date dep_time arr_date arr_time],
              closed_set = {}, next_id = 1, queries = []\<rparr>"
  have inv: "fresh_ids ?st"
    by (simp add: fresh_ids_def start_node_def)
  have 1: "\<exists>r. dijkstra start_node_name goal_node_name dep_date dep_time arr_date arr_time g = Some r"
    using dijkstra_loop_total[OF inv, of g goal_node_name]
    by (auto simp: dijkstra_def dijkstra_trace_def)
  have 2: "\<exists>p. dijkstra start_node_name goal_node_name dep_date dep_time arr_date arr_time g
                    = Some (Inr p)"
    if wf: "list_all well_formed_row g" and ps: "parses dep_date dep_time"
  proof -
    have "parsable_frontier ?st" using ps by (simp add: parsable_frontier_def start_node_def)
    from dijkstra_loop_no_error[OF wf inv this, of goal_node_name]
    show ?thesis by (auto simp: dijkstra_def dijkstra_trace_def)
  qed
  from 1 2 show ?thesis by blast
qed

theorem dijkstra_terminates_witness:
  "list_all well_formed_row missed_train_store
   \<and> parses (Some ''01/06/2024'') (Some ''08:00'')
   \<and> (\<exists>p. dijkstra ''A'' ''C'' (Some ''01/06/2024'') (Some ''08:00'') (Some ''01/06/2024'')
              (Some ''08:00'') missed_train_store = Some (Inr p))"
proof -
  have wf: "list_all well_formed_row missed_train_store" by code_simp
  have ps: "parses (Some ''01/06/2024'') (Some ''08:00'')" by code_simp
  from dijkstra_terminates [of "''A''" "''C''" "Some ''01/06/2024''" "Some ''08:00''"
      "Some ''01/06/2024''" "Some ''08:00''" missed_train_store] wf ps
  show ?thesis by blast
qed

section \<open>The selection for a desired arrival time\<close>

lemma smallest_positive_loop_None_iff:
  "smallest_positive_loop acc L = None \<longleftrightarrow> acc = None \<and> (\<forall>x \<in> set L. \<not> 0 < x)"
  by (induction L arbitrary: acc) (auto split: option.splits)

lemma smallest_positive_loop_mem:
  "smallest_positive_loop acc L = Some m \<Longrightarrow> acc = Some m \<or> (m \<in> set L \<and> 0 < m)"
proof (induction L arbitrary: acc)
  case Nil
  then show ?case by simp
next
  case (Cons number rest)
  let ?acc' = "if 0 < number
        then (case acc of None \<Rightarrow> Some number
              | Some s \<Rightarrow> if number < s then Some number else Some s)
        else acc"
  have run: "smallest_positive_loop ?acc' rest = Some m"
    using Cons.prems(1) by simp
  from Cons.IH[OF run] have "?acc' = Some m \<or> (m \<in> set rest \<and> 0 < m)" .
  then show ?case
    by (cases acc; cases "0 < number") (auto split: if_splits)
qed

lemma smallest_positive_loop_le_acc:
  "smallest_positive_loop (Some s) L = Some m \<Longrightarrow> m \<le> s"
proof (induction L arbitrary: s)
  case Nil
  then show ?case by simp
next
  case (Cons number rest)
  show ?case
  proof (cases "0 < number \<and> number < s")
    case True
    then have "smallest_positive_loop (Some number) rest = Some m"
      using Cons.prems by simp
    from Cons.IH[OF this] show ?thesis using True by simp
  next
    case False
    then have "smallest_positive_loop (Some s) rest = Some m"
      using Cons.prems by (auto split: if_splits)
    from Cons.IH[OF this] show ?thesis .
  qed
qed

lemma smallest_positive_loop_le:
  "smallest_positive_loop acc L = Some m \<Longrightarrow> x \<in> set L \<Longrightarrow> 0 < x \<Longrightarrow> m \<le> x"
proof (induction L arbitrary: acc)
  case Nil
  then show ?case by simp
next
  case (Cons number rest)
  show ?case
  proof (cases "0 < number")
    case False
    then have run: "smallest_positive_loop acc rest = Some m"
      using Cons.prems(1) by simp
    have "x \<in> set rest" using Cons.prems(2,3) False by auto
    then show ?thesis using Cons.IH[OF run] Cons.prems(3) by simp
  next
    case True
    obtain s where run: "smallest_positive_loop (Some s) rest = Some m" and s: "s \<le> number"
    proof (cases acc)
      case None
      then have "smallest_positive_loop (Some number) rest = Some m"
        using Cons.prems(1) True by simp
      then show ?thesis using that by simp
    next
      case (Some s0)
      show ?thesis
      proof (cases "number < s0")
        case lt: True
        then have "smallest_positive_loop (Some number) rest = Some m"
          using Cons.prems(1) True Some by simp
        then show ?thesis using that by simp
      next
        case ge: False
        then have "smallest_positive_loop (Some s0) rest = Some m"
          using Cons.prems(1) True Some by simp
        then show ?thesis using that ge by simp
      qed
    qed
    show ?thesis
    proof (cases "x = number")
      case True
      have "m \<le> s" using smallest_positive_loop_le_acc[OF run] .
      then show ?thesis using s True by simp
    next
      case False
      then have "x \<in> set rest" using Cons.prems(2) by simp
      then show ?thesis using Cons.IH[OF run] Cons.prems(3) by simp
    qed
  qed
qed

lemma smallest_positive_loop_Min:
  assumes "\<exists>x \<in> set L. 0 < x"
  shows "smallest_positive_loop None L = Some (Min {x \<in> set L. 0 < x})"
proof -
  obtain m where m: "smallest_positive_loop None L = Some m"
    using assms smallest_positive_loop_None_iff[of None L] by (cases "smallest_positive_loop None L") auto
  have "m \<in> set L \<and> 0 < m" using smallest_positive_loop_mem[OF m] by simp
  moreover have "\<And>x. x \<in> set L \<Longrightarrow> 0 < x \<Longrightarrow> m \<le> x"
    using smallest_positive_loop_le[OF m] by blast
  ultimately have "Min {x \<in> set L. 0 < x} = m"
    by (intro Min_eqI) auto
  then show ?thesis using m by simp
qed

lemma first_index_found:
  assumes "m \<in> snd ` set xs"
  shows "\<exists>k < length xs. first_index (Some m) i xs = Some (i + k) \<and> snd (xs ! k) = m
           \<and> (\<forall>j < k. snd (xs ! j) \<noteq> m)"
  using assms
proof (induction xs arbitrary: i)
  case Nil
  then show ?case by simp
next
  case (Cons x xs)
  show ?case
  proof (cases "snd x = m")
    case True
    then show ?thesis by (auto simp: contains_value_def intro!: exI[of _ 0])
  next
    case False
    then have "m \<in> snd ` set xs" using Cons.prems by auto
    from Cons.IH[OF this, of "Suc i"] obtain k where k: "k < length xs"
      "first_index (Some m) (Suc i) xs = Some (Suc i + k)" "snd (xs ! k) = m"
      "\<forall>j < k. snd (xs ! j) \<noteq> m" by blast
    have "\<forall>j < Suc k. snd ((x # xs) ! j) \<noteq> m"
      using False k(4) by (auto simp: nth_Cons split: nat.splits)
    then show ?thesis
      using False k by (intro exI[of _ "Suc k"]) (auto simp: contains_value_def)
  qed
qed

text \<open>
  The loop over \<^verbatim>\<open>premier_nodes\<close> keeps \<^verbatim>\<open>L\<close> the list of the scores of
  \<^verbatim>\<open>Liste\<close>, and every score is the one of line 438.
\<close>

lemma collect_paths_invariant:
  assumes "collect_paths g s t d atm ps Liste L = Some (Inr (Liste', L'))"
    and "L = map snd Liste" and "list_all (scored_by_second_last d atm) Liste"
  shows "L' = map snd Liste' \<and> list_all (scored_by_second_last d atm) Liste'"
  using assms
proof (induction ps arbitrary: Liste L)
  case Nil
  then show ?case by auto
next
  case (Cons p ps)
  let ?r = "dijkstra s t (departure_date p) (departure_time p) (arrival_date p) (arrival_time p) g"
  show ?case
  proof (cases ?r)
    case None
    then show ?thesis using Cons.prems(1) by simp
  next
    case (Some res)
    note r = Some
    show ?thesis
    proof (cases res)
      case (Inl e)
      then show ?thesis using Cons.prems(1) r by simp
    next
      case (Inr po)
      note res = Inr
      show ?thesis
      proof (cases po)
        case None
        then have "collect_paths g s t d atm ps Liste L = Some (Inr (Liste', L'))"
          using Cons.prems(1) r res by simp
        from Cons.IH[OF this Cons.prems(2,3)] show ?thesis .
      next
        case (Some path)
        note po = Some
        show ?thesis
        proof (cases "path = []")
          case True
          then have "collect_paths g s t d atm ps Liste L = Some (Inr (Liste', L'))"
            using Cons.prems(1) r res po by simp
          from Cons.IH[OF this Cons.prems(2,3)] show ?thesis .
        next
          case False
          show ?thesis
          proof (cases "length path < 2")
            case True
            then show ?thesis using Cons.prems(1) r res po False by simp
          next
            case ge: False
            let ?an = "path ! (length path - 2)"
            show ?thesis
            proof (cases "calculate_total_time (Some d) (arrival_time ?an) (Some d) (Some atm)")
              case (Inl e)
              then show ?thesis using Cons.prems(1) r res po False ge by (simp add: Let_def)
            next
              case (Inr temps)
              then have "collect_paths g s t d atm ps (Liste @ [(path, temps)]) (L @ [temps])
                           = Some (Inr (Liste', L'))"
                using Cons.prems(1) r res po False ge by (simp add: Let_def)
              moreover have "L @ [temps] = map snd (Liste @ [(path, temps)])"
                using Cons.prems(2) by simp
              moreover have "list_all (scored_by_second_last d atm) (Liste @ [(path, temps)])"
              proof -
                have "scored_by_second_last d atm (path, temps)"
                  using Inr ge by (simp add: scored_by_second_last_def)
                then show ?thesis using Cons.prems(3) by simp
              qed
              ultimately show ?thesis using Cons.IH by blast
            qed
          qed
        qed
      qed
    qed
  qed
qed

text \<open>
  The selection of lines 446 to 466: when \<^verbatim>\<open>L\<close> holds the scores of \<^verbatim>\<open>Liste\<close> in
  order and one score is positive, the first path whose score is the least positive one is
  selected.
\<close>

lemma select_path_min_positive:
  assumes "L = map snd Liste" and "\<exists>x \<in> set L. 0 < x"
  shows "\<exists>i < length Liste.
           select_path Liste L = Inr (Selected (Some (Min {x \<in> set L. 0 < x})) i (Liste ! i))
           \<and> snd (Liste ! i) = Min {x \<in> set L. 0 < x}
           \<and> 0 < snd (Liste ! i)
           \<and> (\<forall>x \<in> set L. 0 < x \<longrightarrow> snd (Liste ! i) \<le> x)
           \<and> (\<forall>j < i. snd (Liste ! j) \<noteq> snd (Liste ! i))"
proof -
  let ?P = "{x \<in> set L. 0 < x}"
  let ?m = "Min ?P"
  have ne: "?P \<noteq> {}" and fin: "finite ?P" using assms(2) by auto
  have sp: "smallest_positive_loop None L = Some ?m"
    using smallest_positive_loop_Min[OF assms(2)] .
  have mem: "?m \<in> ?P" using Min_in[OF fin ne] .
  then have "?m \<in> snd ` set Liste" using assms(1) by auto
  from first_index_found[OF this, of 0] obtain k where k: "k < length Liste"
    "first_index (Some ?m) 0 Liste = Some k" "snd (Liste ! k) = ?m"
    "\<forall>j < k. snd (Liste ! j) \<noteq> ?m" by auto
  have "L \<noteq> []" using assms(2) by auto
  then have "select_path Liste L = Inr (Selected (Some ?m) k (Liste ! k))"
    using sp k(2) by (simp add: select_path_def)
  moreover have "0 < ?m" using mem by simp
  moreover have "\<forall>x \<in> set L. 0 < x \<longrightarrow> ?m \<le> x" using fin by (auto intro: Min_le)
  ultimately show ?thesis using k by auto
qed

text \<open>
  The same for the whole branch: among the paths found, the one whose score is the least
  positive one is selected, the first of them, and its score is the one of line 438.
\<close>

lemma main_arrival_mode_min_positive:
  assumes "collect_paths g s t d atm (get_premiernodes g s (Some d) (Some t0)) [] []
             = Some (Inr (Liste, L))"
    and "\<exists>x \<in> set L. 0 < x"
  shows "\<exists>i < length Liste.
           main_arrival_mode g s t d t0 atm
             = Some (Inr (Selected (Some (Min {x \<in> set L. 0 < x})) i (Liste ! i)))
           \<and> snd (Liste ! i) = Min {x \<in> set L. 0 < x}
           \<and> (\<forall>j < i. snd (Liste ! j) \<noteq> snd (Liste ! i))
           \<and> scored_by_second_last d atm (Liste ! i)"
proof -
  have inv: "L = map snd Liste \<and> list_all (scored_by_second_last d atm) Liste"
    using collect_paths_invariant[OF assms(1)] by simp
  from select_path_min_positive[OF conjunct1[OF inv] assms(2)] obtain i where i: "i < length Liste"
    "select_path Liste L = Inr (Selected (Some (Min {x \<in> set L. 0 < x})) i (Liste ! i))"
    "snd (Liste ! i) = Min {x \<in> set L. 0 < x}"
    "\<forall>j < i. snd (Liste ! j) \<noteq> snd (Liste ! i)" by blast
  have "main_arrival_mode g s t d t0 atm = Some (select_path Liste L)"
    using assms(1) by (simp add: main_arrival_mode_def)
  moreover have "scored_by_second_last d atm (Liste ! i)"
    using inv i(1) by (simp add: list_all_length)
  ultimately show ?thesis using i by auto
qed

text \<open>
  A run of the whole branch: five trains from A to B and a desired arrival at 12:00. The
  first four give a path, with the scores 45, -10, 12 and 90; the branch selects the third.
\<close>

lemma arrival_mode_five_trains:
  "map_option (map_sum id snd)
      (collect_paths five_trains_store ''A'' ''B'' ''01/06/2024'' ''12:00''
         (get_premiernodes five_trains_store ''A'' (Some ''01/06/2024'') (Some ''00:00'')) [] [])
     = Some (Inr [45, - 10, 12, 90])
   \<and> map_option (map_sum id (\<lambda>r. case r of NoTrainFound \<Rightarrow> None
                                   | Selected m i p \<Rightarrow> Some (m, i, snd p)))
      (main_arrival_mode five_trains_store ''A'' ''B'' ''01/06/2024'' ''00:00'' ''12:00'')
     = Some (Inr (Some (Some 12, 2, 12)))"
  by code_simp

text \<open>
  Claim C4. The claim: the candidate selected has the least strictly positive score, the
  score being the minutes from the arrival of the journey to the desired arrival time. The
  branch scores a path by the arrival time of its second-last Node
  (\<^verbatim>\<open>arrival_node = path[-2]\<close>, line 436), which is the arrival at the station before the
  destination. In the run below the only path found is A, B, C; it reaches C at 13:00, one
  hour after the desired 12:00, so its score by the claim is minus 60 and it is to be
  discarded; the branch gives it the score 170, from the arrival at B at 09:10, and selects
  it.
\<close>

theorem arrival_mode_scores_second_last_node:
  "map_option (map_sum id (\<lambda>r. case r of NoTrainFound \<Rightarrow> None
                 | Selected m i p \<Rightarrow> Some (m, i, map (\<lambda>n. (name n, arrival_time n)) (fst p))))
      (main_arrival_mode late_journey_store ''A'' ''C'' ''01/06/2024'' ''00:00'' ''12:00'')
     = Some (Inr (Some (Some 170, 0,
          [(''A'', Some ''09:00''), (''B'', Some ''09:10''), (''C'', Some ''13:00'')])))
   \<and> calculate_total_time (Some ''01/06/2024'') (Some ''13:00'') (Some ''01/06/2024'')
        (Some ''12:00'') = Inr (- 60)"
  by code_simp

text \<open>
  Claim C5. The claim: when paths were found and no score is positive, the branch reports
  that nothing was found and raises nothing. With two trains from A to B arriving at 09:00
  and 09:30 and a desired arrival at 07:00, one path is found, its score is minus 120,
  and line 465 raises UnboundLocalError.
\<close>

theorem arrival_mode_no_positive_score_raises:
  "main_arrival_mode late_trains_store ''A'' ''B'' ''01/06/2024'' ''00:00'' ''07:00''
     = Some (Inl UnboundLocalError)"
  by code_simp

end
